theory Spec2Isabelle
  imports Main "HOL-Library.Sublist" "HOL-Library.Product_Lexorder"
begin

section \<open>Strings: the library operations used by \<open>normalize\<close>\<close>

text \<open>
  A Go string is a sequence of bytes, here a \<open>string\<close> (a list of \<open>char\<close>, each one
  byte). The case mappings are the ASCII ones, which is what \<open>strings.ToUpper\<close> and
  \<open>strings.ToLower\<close> do on ASCII text; the tables of this package hold ASCII only. Bytes
  outside \<open>a..z\<close> and \<open>A..Z\<close> are left as they are, so the case folding of multi-byte
  runes is not part of this model.
\<close>

definition lower_letters :: string where
  "lower_letters = ''abcdefghijklmnopqrstuvwxyz''"

definition upper_letters :: string where
  "upper_letters = ''ABCDEFGHIJKLMNOPQRSTUVWXYZ''"

definition toUpperByte :: "char \<Rightarrow> char" where
  "toUpperByte c = (case map_of (zip lower_letters upper_letters) c of Some u \<Rightarrow> u | None \<Rightarrow> c)"

definition toLowerByte :: "char \<Rightarrow> char" where
  "toLowerByte c = (case map_of (zip upper_letters lower_letters) c of Some l \<Rightarrow> l | None \<Rightarrow> c)"

definition ToUpper :: "string \<Rightarrow> string" where
  "ToUpper s = map toUpperByte s"

definition ToLower :: "string \<Rightarrow> string" where
  "ToLower s = map toLowerByte s"

text \<open>\<open>strings.Trim(s, cutset)\<close>: drop the leading and the trailing bytes that are in the cutset.\<close>

definition Trim :: "string \<Rightarrow> string \<Rightarrow> string" where
  "Trim s cutset =
     rev (dropWhile (\<lambda>c. c \<in> set cutset) (rev (dropWhile (\<lambda>c. c \<in> set cutset) s)))"

text \<open>
  \<open>SpaceRe\<close> is the regular expression \<open>\s+\<close>. In Go's syntax \<open>\s\<close> is the class of tab,
  newline, form feed, carriage return and space. \<open>ReplaceAllString\<close> replaces every
  maximal run of such bytes, from left to right, by the replacement text.
\<close>

definition isSpaceRe :: "char \<Rightarrow> bool" where
  "isSpaceRe c = (c \<in> set [CHR 0x09, CHR 0x0A, CHR 0x0C, CHR 0x0D, CHR '' ''])"

function SpaceRe_ReplaceAllString :: "string \<Rightarrow> string \<Rightarrow> string" where
  "SpaceRe_ReplaceAllString [] repl = []"
| "SpaceRe_ReplaceAllString (c # cs) repl =
     (if isSpaceRe c then repl @ SpaceRe_ReplaceAllString (dropWhile isSpaceRe cs) repl
      else c # SpaceRe_ReplaceAllString cs repl)"
  by pat_completeness auto
termination
  by (relation "measure (\<lambda>(s, r). length s)") (auto simp: length_dropWhile_le less_Suc_eq_le)

text \<open>
  \<open>strings.NewReplacer(old1, new1, old2, new2, ...).Replace(s)\<close>: the text is read from
  left to right; at each place the first pair (in argument order) whose old string starts
  there is replaced and reading goes on behind it, matches do not overlap. No old string
  of \<open>literals\<close> is empty.
\<close>

fun lookup_old :: "(string \<times> string) list \<Rightarrow> string \<Rightarrow> (string \<times> string) option" where
  "lookup_old [] s = None"
| "lookup_old ((old, new) # ps) s = (if prefix old s then Some (old, new) else lookup_old ps s)"

function Replacer_Replace :: "(string \<times> string) list \<Rightarrow> string \<Rightarrow> string" where
  "Replacer_Replace ps [] = []"
| "Replacer_Replace ps (c # cs) =
     (case lookup_old ps (c # cs) of
        Some (old, new) \<Rightarrow> new @ Replacer_Replace ps (drop (length old - 1) cs)
      | None \<Rightarrow> c # Replacer_Replace ps cs)"
  by pat_completeness auto
termination
  by (relation "measure (\<lambda>(ps, s). length s)") auto

text \<open>\<open>strings.ReplaceAll(s, "  ", " ")\<close>: non-overlapping pairs of spaces, from the left.\<close>

fun ReplaceAll_spaces :: "string \<Rightarrow> string" where
  "ReplaceAll_spaces (a # b # cs) =
     (if a = CHR '' '' \<and> b = CHR '' '' then CHR '' '' # ReplaceAll_spaces cs
      else a # ReplaceAll_spaces (b # cs))"
| "ReplaceAll_spaces cs = cs"

text \<open>\<open>strings.Split(s, " ")\<close> with a separator of one byte; the empty text gives one empty field.\<close>

fun Split :: "string \<Rightarrow> char \<Rightarrow> string list" where
  "Split [] sep = [[]]"
| "Split (c # cs) sep =
     (if c = sep then [] # Split cs sep
      else (case Split cs sep of w # ws \<Rightarrow> (c # w) # ws | [] \<Rightarrow> [[c]]))"

section \<open>The tables and \<open>normalize\<close>\<close>

definition literals :: "(string \<times> string) list" where
  "literals =
    [(''SUN'', ''0''), (''MON'', ''1''), (''TUE'', ''2''), (''WED'', ''3''), (''THU'', ''4''),
     (''FRI'', ''5''), (''SAT'', ''6''),
     (''JAN'', ''1''), (''FEB'', ''2''), (''MAR'', ''3''), (''APR'', ''4''), (''MAY'', ''5''),
     (''JUN'', ''6''), (''JUL'', ''7''),
     (''AUG'', ''8''), (''SEP'', ''9''), (''OCT'', ''10''), (''NOV'', ''11''), (''DEC'', ''12'')]"

definition expressions :: "string \<rightharpoonup> string" where
  "expressions = map_of
    [(''@yearly'', ''0 0 1 1 *''),
     (''@annually'', ''0 0 1 1 *''),
     (''@monthly'', ''0 0 1 * *''),
     (''@weekly'', ''0 0 * * 0''),
     (''@daily'', ''0 0 * * *''),
     (''@hourly'', ''0 * * * *''),
     (''@always'', ''* * * * *''),
     (''@5minutes'', ''*/5 * * * *''),
     (''@10minutes'', ''*/10 * * * *''),
     (''@15minutes'', ''*/15 * * * *''),
     (''@30minutes'', ''0,30 * * * *'')]"

abbreviation (input) PosMinute :: nat where "PosMinute \<equiv> 0"
abbreviation (input) PosHour :: nat where "PosHour \<equiv> 1"
abbreviation (input) PosDayOfMonth :: nat where "PosDayOfMonth \<equiv> 2"
abbreviation (input) PosMonth :: nat where "PosMonth \<equiv> 3"
abbreviation (input) PosDayOfWeek :: nat where "PosDayOfWeek \<equiv> 4"
abbreviation (input) PosYear :: nat where "PosYear \<equiv> 5"

text \<open>\<open>normalize\<close> of the source (the name is taken by a constant of the library).\<close>

definition normalize_expr :: "string \<Rightarrow> string list" where
  "normalize_expr expr0 =
    (let expr1 = Trim expr0 [CHR '' '', CHR 0x09];
         expr2 = (case expressions (ToLower expr1) of Some e \<Rightarrow> e | None \<Rightarrow> expr1);
         expr3 = SpaceRe_ReplaceAllString expr2 '' '';
         expr4 = Replacer_Replace literals (ToUpper expr3)
     in Split (ReplaceAll_spaces expr4) CHR '' '')"

section \<open>Errors and \<open>Segments\<close>\<close>

text \<open>A Go \<open>error\<close> made by \<open>errors.New\<close> or \<open>fmt.Errorf\<close>, as its message.\<close>

datatype error = Error string

definition ErrSegments :: error where
  "ErrSegments = Error ''expr should contain 5-6 segments separated by space''"

definition ErrNoPrevDue :: error where
  "ErrNoPrevDue = Error ''could not find previous due for cron expression''"

definition Segments :: "string \<Rightarrow> string list \<times> error option" where
  "Segments expr =
    (let segs = normalize_expr expr
     in if length segs < 5 \<or> length segs > 6 then ([], Some ErrSegments)
        else (segs, None))"

section \<open>Time\<close>

text \<open>
  A \<open>time.Time\<close> is an instant with nanosecond resolution, read as a calendar date and a
  clock time in its location. The model keeps that reading, in a location with a fixed
  offset (such as UTC), where every reading names one instant and the other way round;
  the location itself is then not a field. Daylight-saving transitions are not modelled.
\<close>

record Time =
  Year :: int
  Month :: nat
  Day :: nat
  Hour :: nat
  Minute :: nat
  Second :: nat
  Nanosecond :: nat

definition isLeap :: "int \<Rightarrow> bool" where
  "isLeap y = (y mod 4 = 0 \<and> (y mod 100 \<noteq> 0 \<or> y mod 400 = 0))"

definition daysIn :: "nat \<Rightarrow> int \<Rightarrow> nat" where
  "daysIn m y =
     (if m = 2 then (if isLeap y then 29 else 28)
      else if m = 4 \<or> m = 6 \<or> m = 9 \<or> m = 11 then 30 else 31)"





text \<open>
  \<open>time.Date(year, month, day, hour, min, sec, nsec, loc)\<close> on arguments that are in range,
  where it normalises nothing; \<open>getPrevTime\<close> and \<open>GetPrev\<close> pass the fields of a time and
  the constants 1 and 0.
\<close>

definition Date :: "int \<Rightarrow> nat \<Rightarrow> nat \<Rightarrow> nat \<Rightarrow> nat \<Rightarrow> nat \<Rightarrow> nat \<Rightarrow> Time" where
  "Date y m d h mi s n =
     \<lparr>Year = y, Month = m, Day = d, Hour = h, Minute = mi, Second = s, Nanosecond = n\<rparr>"

text \<open>\<open>t.Add(-time.Nanosecond)\<close>: one nanosecond earlier, borrowing from the next coarser field.\<close>

definition Add_minus_Nanosecond :: "Time \<Rightarrow> Time" where
  "Add_minus_Nanosecond t =
     (if 0 < Nanosecond t then t\<lparr>Nanosecond := Nanosecond t - 1\<rparr>
      else if 0 < Second t then t\<lparr>Second := Second t - 1, Nanosecond := 999999999\<rparr>
      else if 0 < Minute t then
        t\<lparr>Minute := Minute t - 1, Second := 59, Nanosecond := 999999999\<rparr>
      else if 0 < Hour t then
        t\<lparr>Hour := Hour t - 1, Minute := 59, Second := 59, Nanosecond := 999999999\<rparr>
      else if 1 < Day t then
        t\<lparr>Day := Day t - 1, Hour := 23, Minute := 59, Second := 59, Nanosecond := 999999999\<rparr>
      else if 1 < Month t then
        t\<lparr>Month := Month t - 1, Day := daysIn (Month t - 1) (Year t),
          Hour := 23, Minute := 59, Second := 59, Nanosecond := 999999999\<rparr>
      else
        t\<lparr>Year := Year t - 1, Month := 12, Day := 31,
          Hour := 23, Minute := 59, Second := 59, Nanosecond := 999999999\<rparr>)"

section \<open>\<open>getPrevTime\<close>\<close>

text \<open>A call either returns or panics; a panic carries its message.\<close>

datatype 'a outcome = Panic string | Return 'a

definition getPrevTime :: "Time \<Rightarrow> nat \<Rightarrow> (Time \<times> bool) outcome" where
  "getPrevTime ref pos =
    (let res =
       (if pos = PosYear then
          Return (Add_minus_Nanosecond (Date (Year ref) 1 1 0 0 0 0))
        else if pos = PosMonth then
          Return (Add_minus_Nanosecond (Date (Year ref) (Month ref) 1 0 0 0 0))
        else if pos = PosDayOfMonth then
          Return (Add_minus_Nanosecond (Date (Year ref) (Month ref) (Day ref) 0 0 0 0))
        else if pos = PosDayOfWeek then
          Return (Add_minus_Nanosecond (Date (Year ref) (Month ref) (Day ref) 0 0 0 0))
        else if pos = PosHour then
          Return (Add_minus_Nanosecond (Date (Year ref) (Month ref) (Day ref) (Hour ref) 0 0 0))
        else if pos = PosMinute then
          Return (Add_minus_Nanosecond
            (Date (Year ref) (Month ref) (Day ref) (Hour ref) (Minute ref) 0 0))
        else Panic ''Unknown segment position'')
     in case res of
          Panic msg \<Rightarrow> Panic msg
        | Return res \<Rightarrow> Return (res, Year res \<noteq> Year ref))"

section \<open>The checker and the due check\<close>

text \<open>
  \<open>Gronx\<close> holds a \<open>Checker\<close>, an interface with the methods \<open>GetRef\<close>, \<open>SetRef\<close> and
  \<open>CheckDue\<close>, and calls nothing else of it. So the checker is a parameter of every
  operation: three functions on a state \<open>'s\<close> of the checker's own, which every call may
  read and change. \<open>CheckDue\<close> returns Go's pair of a \<open>bool\<close> and an \<open>error\<close> (\<open>None\<close> is
  \<open>nil\<close>). A position is an \<open>int\<close> in Go; the ones passed here are the six constants and
  the indices of a slice, so they are natural numbers.
\<close>

record 's Checker =
  GetRef :: "'s \<Rightarrow> Time"
  SetRef :: "Time \<Rightarrow> 's \<Rightarrow> 's"
  CheckDue :: "string \<Rightarrow> nat \<Rightarrow> 's \<Rightarrow> (bool \<times> error option) \<times> 's"

text \<open>
  The loop of \<open>SegmentsDue\<close> over \<open>range segments\<close>, from position \<open>pos\<close> on. The results
  carry the checker's state after the call.
\<close>

fun SegmentsDue_from ::
  "'s Checker \<Rightarrow> nat \<Rightarrow> string list \<Rightarrow> 's \<Rightarrow> (bool \<times> error option) \<times> 's" where
  "SegmentsDue_from c pos [] s = ((True, None), s)"
| "SegmentsDue_from c pos (seg # segments) s =
     (if seg = ''*'' \<or> seg = ''?'' then SegmentsDue_from c (pos + 1) segments s
      else
        (case CheckDue c seg pos s of
           ((due, err), s') \<Rightarrow>
             if \<not> due then ((due, err), s')
             else SegmentsDue_from c (pos + 1) segments s'))"

definition SegmentsDue :: "'s Checker \<Rightarrow> string list \<Rightarrow> 's \<Rightarrow> (bool \<times> error option) \<times> 's" where
  "SegmentsDue c segments s = SegmentsDue_from c 0 segments s"

text \<open>
  The variadic \<open>ref ...time.Time\<close> is a list; \<open>now\<close> stands for what \<open>time.Now()\<close> returns
  at the call.
\<close>

definition IsDue ::
  "'s Checker \<Rightarrow> Time \<Rightarrow> string \<Rightarrow> Time list \<Rightarrow> 's \<Rightarrow> (bool \<times> error option) \<times> 's" where
  "IsDue c now expr ref s =
    (let s1 = (if length ref > 0 then SetRef c (ref ! 0) s else SetRef c now s)
     in case Segments expr of
          (segs, Some err) \<Rightarrow> ((False, Some err), s1)
        | (segs, None) \<Rightarrow> SegmentsDue c segs s1)"

definition IsValid :: "'s Checker \<Rightarrow> Time \<Rightarrow> string \<Rightarrow> 's \<Rightarrow> bool \<times> 's" where
  "IsValid c now expr s =
    (case IsDue c now expr [] s of ((due, err), s') \<Rightarrow> (err = None, s'))"

section \<open>\<open>GetPrev\<close>\<close>

text \<open>
  One pass of the inner loop of \<open>GetPrev\<close> over the positions: it ends with the error of
  a check, at the first position that is not due, or after the last position.
\<close>

datatype scan = ScanError error | ScanNotDue nat | ScanAllDue

fun scan_positions :: "'s Checker \<Rightarrow> string list \<Rightarrow> nat list \<Rightarrow> 's \<Rightarrow> scan \<times> 's" where
  "scan_positions c segs [] s = (ScanAllDue, s)"
| "scan_positions c segs (pos # rest) s =
     (if pos \<ge> length segs then scan_positions c segs rest s
      else
        (let seg = segs ! pos
         in if seg \<noteq> ''*'' \<and> seg \<noteq> ''?'' then
              (case CheckDue c seg pos s of
                 ((due, Some err), s') \<Rightarrow> (ScanError err, s')
               | ((due, None), s') \<Rightarrow>
                   if \<not> due then (ScanNotDue pos, s')
                   else scan_positions c segs rest s')
            else scan_positions c segs rest s))"

text \<open>The code behind the outer loop: the budget is used up, or the time found is cut to its minute.\<close>

definition GetPrev_result :: "'s Checker \<Rightarrow> int \<Rightarrow> 's \<Rightarrow> (Time option \<times> error option) outcome \<times> 's" where
  "GetPrev_result c yearsLeftToCheck s =
    (if yearsLeftToCheck = 0 then (Return (None, Some ErrNoPrevDue), s)
     else
       (let res = GetRef c s;
            prevDue = Date (Year res) (Month res) (Day res) (Hour res) (Minute res) 0 0
        in (Return (Some prevDue, None), s)))"

text \<open>
  The outer loop, labelled \<open>L\<close>. With a checker that is a parameter nothing says that the
  loop ends, so the function is partial: \<open>None\<close> is a run that does not return.
\<close>

partial_function (option) GetPrev_loop ::
  "'s Checker \<Rightarrow> string list \<Rightarrow> int \<Rightarrow> 's \<Rightarrow>
     ((Time option \<times> error option) outcome \<times> 's) option" where
  "GetPrev_loop c segs yearsLeftToCheck s =
    (if yearsLeftToCheck > 0 then
       (case scan_positions c segs
               [PosYear, PosMonth, PosDayOfMonth, PosDayOfWeek, PosHour, PosMinute] s of
          (ScanError err, s1) \<Rightarrow> Some (Return (None, Some err), s1)
        | (ScanNotDue pos, s1) \<Rightarrow>
            (case getPrevTime (GetRef c s1) pos of
               Panic msg \<Rightarrow> Some (Panic msg, s1)
             | Return (prev, yearChanged) \<Rightarrow>
                 GetPrev_loop c segs
                   (if yearChanged then yearsLeftToCheck - 1 else yearsLeftToCheck)
                   (SetRef c prev s1))
        | (ScanAllDue, s1) \<Rightarrow> Some (GetPrev_result c yearsLeftToCheck s1))
     else Some (GetPrev_result c yearsLeftToCheck s))"

definition GetPrev ::
  "'s Checker \<Rightarrow> Time \<Rightarrow> string \<Rightarrow> Time list \<Rightarrow> 's \<Rightarrow>
     ((Time option \<times> error option) outcome \<times> 's) option" where
  "GetPrev c now expr ref s =
    (let s1 = (if length ref > 0 then SetRef c (ref ! 0) s else SetRef c now s)
     in case Segments expr of
          (segs, Some err) \<Rightarrow> Some (Return (None, Some err), s1)
        | (segs, None) \<Rightarrow> GetPrev_loop c segs 100 s1)"

section \<open>Checkers as inputs, and what a run of the due check did\<close>

text \<open>
  A checker that keeps the reference time as its whole state and decides a field by a
  function \<open>matches\<close> of the field's text, the position and the reference time.
\<close>

definition ref_checker :: "(string \<Rightarrow> nat \<Rightarrow> Time \<Rightarrow> bool \<times> error option) \<Rightarrow> Time Checker" where
  "ref_checker matches =
    \<lparr>GetRef = (\<lambda>s. s),
     SetRef = (\<lambda>t s. t),
     CheckDue = (\<lambda>seg pos s. (matches seg pos s, s))\<rparr>"

text \<open>
  A small \<open>matches\<close> to run the operations on: a field is a decimal number, due when
  the reference time has that value at the position; the day of the week and every
  other text are refused with an error.
\<close>

definition digit_of :: "char \<Rightarrow> nat option" where
  "digit_of ch = map_of (zip ''0123456789'' [0, 1, 2, 3, 4, 5, 6, 7, 8, 9]) ch"

fun parse_digits :: "nat \<Rightarrow> string \<Rightarrow> nat option" where
  "parse_digits acc [] = Some acc"
| "parse_digits acc (ch # cs) =
     (case digit_of ch of None \<Rightarrow> None | Some d \<Rightarrow> parse_digits (10 * acc + d) cs)"

definition parse_number :: "string \<Rightarrow> nat option" where
  "parse_number seg = (if seg = [] then None else parse_digits 0 seg)"

definition field_of_time :: "Time \<Rightarrow> nat \<Rightarrow> int option" where
  "field_of_time t pos =
     (if pos = PosMinute then Some (int (Minute t))
      else if pos = PosHour then Some (int (Hour t))
      else if pos = PosDayOfMonth then Some (int (Day t))
      else if pos = PosMonth then Some (int (Month t))
      else if pos = PosYear then Some (Year t)
      else None)"

definition exact_matches :: "string \<Rightarrow> nat \<Rightarrow> Time \<Rightarrow> bool \<times> error option" where
  "exact_matches seg pos t =
     (case parse_number seg of
        None \<Rightarrow> (False, Some (Error ''not a number''))
      | Some n \<Rightarrow>
          (case field_of_time t pos of
             None \<Rightarrow> (False, Some (Error ''position not supported''))
           | Some v \<Rightarrow> (v = int n, None)))"

text \<open>
  A checker wrapped so that its state also lists the calls of \<open>CheckDue\<close> made so far, in
  the order they were made: the field text, the position and the result of each call.
\<close>

type_synonym call = "string \<times> nat \<times> (bool \<times> error option)"

definition recording :: "'s Checker \<Rightarrow> ('s \<times> call list) Checker" where
  "recording c =
    \<lparr>GetRef = (\<lambda>(s, calls). GetRef c s),
     SetRef = (\<lambda>t (s, calls). (SetRef c t s, calls)),
     CheckDue = (\<lambda>seg pos (s, calls).
        case CheckDue c seg pos s of (r, s') \<Rightarrow> (r, (s', calls @ [(seg, pos, r)])))\<rparr>"

definition call_field :: "call \<Rightarrow> nat \<times> string" where
  "call_field cl = (case cl of (seg, pos, r) \<Rightarrow> (pos, seg))"

definition call_due :: "call \<Rightarrow> bool" where
  "call_due cl = (case cl of (seg, pos, (due, err)) \<Rightarrow> due)"

definition call_result :: "call \<Rightarrow> bool \<times> error option" where
  "call_result cl = (case cl of (seg, pos, r) \<Rightarrow> r)"

text \<open>The fields that are not \<open>*\<close> or \<open>?\<close>, each with its position, in position order.\<close>

definition wildcard :: "string \<Rightarrow> bool" where
  "wildcard seg = (seg = ''*'' \<or> seg = ''?'')"

definition checked_from :: "nat \<Rightarrow> string list \<Rightarrow> (nat \<times> string) list" where
  "checked_from pos segments = filter (\<lambda>(pos, seg). \<not> wildcard seg) (enumerate pos segments)"

definition checked_fields :: "string list \<Rightarrow> (nat \<times> string) list" where
  "checked_fields segments = checked_from 0 segments"

definition calls_ok :: "nat \<Rightarrow> string list \<Rightarrow> call list \<Rightarrow> bool \<times> error option \<Rightarrow> bool" where
  "calls_ok pos segs new r =
     (prefix (map call_field new) (checked_from pos segs) \<and>
      list_all call_due (butlast new) \<and>
      (if new \<noteq> [] \<and> \<not> call_due (last new) then r = call_result (last new)
       else r = (True, None) \<and> map call_field new = checked_from pos segs))"


text \<open>Inputs to run the operations on.\<close>

definition ref_example :: Time where
  "ref_example = Date 2021 4 1 1 5 30 0"

definition ignoring_matches :: "string \<Rightarrow> nat \<Rightarrow> Time \<Rightarrow> bool \<times> error option" where
  "ignoring_matches seg pos t = (True, Some (Error ''bad field''))"


section \<open>Notions used to state the properties\<close>












section \<open>Evaluating the string operations\<close>

lemmas string_ops =
  Trim_def ToLower_def ToUpper_def toLowerByte_def toUpperByte_def lower_letters_def
  upper_letters_def isSpaceRe_def expressions_def literals_def

lemmas exact_ops =
  ref_checker_def exact_matches_def parse_number_def digit_of_def field_of_time_def
  ref_example_def Date_def

lemma Segments_examples:
  "Segments ''1 2 3 4'' = ([], Some ErrSegments)"
  "Segments ''1 2 3 4 5'' = ([''1'', ''2'', ''3'', ''4'', ''5''], None)"
  "Segments ''1 2 3 4 5 6'' = ([''1'', ''2'', ''3'', ''4'', ''5'', ''6''], None)"
  "Segments ''1 2 3 4 5 6 7'' = ([], Some ErrSegments)"
  "Segments [] = ([], Some ErrSegments)"
  by (simp_all add: Segments_def normalize_expr_def string_ops)

section \<open>The due check: which fields are checked, and in which order\<close>

lemma checked_from_Nil: "checked_from pos [] = []"
  by (simp add: checked_from_def)

lemma checked_from_wild:
  "seg = ''*'' \<or> seg = ''?'' \<Longrightarrow> checked_from pos (seg # segs) = checked_from (Suc pos) segs"
  by (auto simp add: checked_from_def wildcard_def)

lemma checked_from_field:
  "\<not> (seg = ''*'' \<or> seg = ''?'') \<Longrightarrow>
   checked_from pos (seg # segs) = (pos, seg) # checked_from (Suc pos) segs"
  by (simp add: checked_from_def wildcard_def)

lemma calls_ok_wild:
  "seg = ''*'' \<or> seg = ''?'' \<Longrightarrow> calls_ok pos (seg # segs) new r = calls_ok (Suc pos) segs new r"
  by (simp only: calls_ok_def checked_from_wild)

lemma calls_ok_Cons_due:
  assumes "calls_ok (Suc pos) segs new r" "\<not> (seg = ''*'' \<or> seg = ''?'')"
  shows "calls_ok pos (seg # segs) ((seg, pos, (True, err)) # new) r"
proof -
  have cf: "checked_from pos (seg # segs) = (pos, seg) # checked_from (Suc pos) segs"
    using assms(2) by (rule checked_from_field)
  have d: "call_due (seg, pos, (True, err))" by (simp add: call_due_def)
  have f: "call_field (seg, pos, (True, err)) = (pos, seg)" by (simp add: call_field_def)
  show ?thesis
  proof (cases "new = []")
    case True
    with assms(1) show ?thesis unfolding calls_ok_def cf by (simp add: d f)
  next
    case False
    with assms(1) show ?thesis unfolding calls_ok_def cf by (simp add: d f)
  qed
qed

lemma calls_ok_single:
  assumes "\<not> (seg = ''*'' \<or> seg = ''?'')"
  shows "calls_ok pos (seg # segs) [(seg, pos, (False, err))] (False, err)"
  unfolding calls_ok_def checked_from_field[OF assms]
  by (simp add: call_field_def call_due_def call_result_def)

lemma recording_from:
  "SegmentsDue_from (recording c) pos segs (s, calls) = (r, (s', calls')) \<Longrightarrow>
   SegmentsDue_from c pos segs s = (r, s') \<and> (\<exists>new. calls' = calls @ new \<and> calls_ok pos segs new r)"
proof (induction segs arbitrary: pos s calls)
  case Nil
  then show ?case by (simp add: calls_ok_def checked_from_Nil)
next
  case (Cons seg segs)
  show ?case
  proof (cases "seg = ''*'' \<or> seg = ''?''")
    case True
    with Cons.prems have "SegmentsDue_from (recording c) (Suc pos) segs (s, calls) = (r, (s', calls'))"
      by simp
    from Cons.IH[OF this] obtain new where
      "SegmentsDue_from c (Suc pos) segs s = (r, s')" "calls' = calls @ new" "calls_ok (Suc pos) segs new r"
      by blast
    with True calls_ok_wild[OF True] show ?thesis
      by simp
  next
    case False
    obtain due err s1 where chk: "CheckDue c seg pos s = ((due, err), s1)"
      by (cases "CheckDue c seg pos s") auto
    have rchk: "CheckDue (recording c) seg pos (s, calls) = ((due, err), (s1, calls @ [(seg, pos, (due, err))]))"
      by (simp add: recording_def chk)
    show ?thesis
    proof (cases due)
      case nd: False
      have "SegmentsDue_from (recording c) pos (seg # segs) (s, calls) =
              ((due, err), (s1, calls @ [(seg, pos, (due, err))]))"
        using False nd by (simp add: rchk)
      with Cons.prems[symmetric]
      have "(r, (s', calls')) = ((due, err), (s1, calls @ [(seg, pos, (due, err))]))"
        by (rule trans)
      then have "r = (due, err) \<and> s' = s1 \<and> calls' = calls @ [(seg, pos, (due, err))]"
        by (simp only: prod.inject)
      moreover have "calls_ok pos (seg # segs) [(seg, pos, (due, err))] (due, err)"
        using nd calls_ok_single[OF False] by simp
      moreover have "SegmentsDue_from c pos (seg # segs) s = ((due, err), s1)"
        using False chk nd by simp
      ultimately show ?thesis by blast
    next
      case True
      have "SegmentsDue_from (recording c) pos (seg # segs) (s, calls) =
            SegmentsDue_from (recording c) (Suc pos) segs (s1, calls @ [(seg, pos, (due, err))])"
        using False True by (simp add: rchk)
      from this[symmetric] Cons.prems
      have rec: "SegmentsDue_from (recording c) (Suc pos) segs (s1, calls @ [(seg, pos, (due, err))]) = (r, (s', calls'))"
        by (rule trans)
      from Cons.IH[OF rec] obtain new where
        a: "SegmentsDue_from c (Suc pos) segs s1 = (r, s')" and
        b: "calls' = (calls @ [(seg, pos, (due, err))]) @ new" and
        c: "calls_ok (Suc pos) segs new r"
        by blast
      have "SegmentsDue_from c pos (seg # segs) s = SegmentsDue_from c (Suc pos) segs s1"
        using True False by (simp add: chk)
      from this a have 1: "SegmentsDue_from c pos (seg # segs) s = (r, s')"
        by (rule trans)
      have 2: "calls' = calls @ ((seg, pos, (due, err)) # new)" using b by simp
      have 3: "calls_ok pos (seg # segs) ((seg, pos, (due, err)) # new) r"
        using calls_ok_Cons_due[OF c False, of err] True by simp
      from 1 2 3 show ?thesis by blast
    qed
  qed
qed

lemma calls_ok_all_due:
  assumes "calls_ok pos segs new r" "fst r"
  shows "r = (True, None) \<and> list_all call_due new \<and> map call_field new = checked_from pos segs"
proof (cases "new = []")
  case True
  with assms show ?thesis by (simp add: calls_ok_def)
next
  case False
  then have sn: "new = butlast new @ [last new]" by simp
  have "call_due (last new)"
  proof (rule ccontr)
    assume nd: "\<not> call_due (last new)"
    with assms(1) False have "r = call_result (last new)" by (simp add: calls_ok_def)
    with nd assms(2) show False
      by (cases "last new") (auto simp: call_result_def call_due_def)
  qed
  note d = this
  from d assms(1) have e: "r = (True, None) \<and> map call_field new = checked_from pos segs"
    by (simp add: calls_ok_def)
  have "list_all call_due (butlast new)" using assms(1) by (simp add: calls_ok_def)
  with d have "list_all call_due (butlast new @ [last new])" by simp
  with False have "list_all call_due new" by simp
  with e show ?thesis by simp
qed

lemma calls_ok_not_due:
  assumes "calls_ok pos segs new r" "\<not> fst r"
  shows "new \<noteq> [] \<and> r = call_result (last new)"
  using assms by (auto simp: calls_ok_def split: if_splits)

text \<open>
  C3. \<open>SegmentsDue\<close> is run on any checker \<open>c\<close> wrapped by \<open>recording\<close>, from an empty list
  of calls; \<open>calls\<close> is then the list of the calls of \<open>CheckDue\<close> that the run made. The
  result and the final state are those of the run on \<open>c\<close> itself. The calls are an
  initial part of the fields that are not \<open>*\<close> or \<open>?\<close>, in position order, so a wildcard
  is never checked and no field is checked out of order or twice. Every call but the last
  said due. If the result says due, it is \<open>(true, nil)\<close>, every field that is not a
  wildcard was checked and every call said due. If not, the result is that of the last
  call, which said not due (so \<open>(false, nil)\<close> when that call gave no error), and no later
  field was checked.
\<close>

theorem SegmentsDue_checks_in_order:
  assumes "SegmentsDue (recording c) segments (s, []) = (r, (s', calls))"
  shows "SegmentsDue c segments s = (r, s') \<and>
         prefix (map call_field calls) (checked_fields segments) \<and>
         list_all call_due (butlast calls) \<and>
         (if fst r
          then r = (True, None) \<and> list_all call_due calls \<and>
               map call_field calls = checked_fields segments
          else calls \<noteq> [] \<and> r = call_result (last calls))"
proof -
  from assms have "SegmentsDue_from (recording c) 0 segments (s, []) = (r, (s', calls))"
    by (simp only: SegmentsDue_def)
  from recording_from[OF this]
  have a: "SegmentsDue_from c 0 segments s = (r, s')" and b: "calls_ok 0 segments calls r"
    by auto
  from a have 1: "SegmentsDue c segments s = (r, s')" by (simp only: SegmentsDue_def)
  from b have 2: "prefix (map call_field calls) (checked_fields segments)"
    and 3: "list_all call_due (butlast calls)"
    by (simp_all add: calls_ok_def checked_fields_def)
  show ?thesis
  proof (cases "fst r")
    case True
    from calls_ok_all_due[OF b True] 1 2 3 True show ?thesis
      by (simp add: checked_fields_def)
  next
    case False
    from calls_ok_not_due[OF b False] 1 2 3 False show ?thesis
      by simp
  qed
qed

theorem SegmentsDue_checks_in_order_witness:
  "SegmentsDue (recording (ref_checker exact_matches)) [''5'', ''*'', ''2'', ''?'', ''*'']
     (ref_example, []) =
     ((False, None), (ref_example, [(''5'', 0, (True, None)), (''2'', 2, (False, None))])) \<and>
   SegmentsDue (ref_checker exact_matches) [''5'', ''*'', ''2'', ''?'', ''*''] ref_example =
     ((False, None), ref_example) \<and>
   checked_fields [''5'', ''*'', ''2'', ''?'', ''*''] = [(0, ''5''), (2, ''2'')]"
proof -
  have run:
    "SegmentsDue (recording (ref_checker exact_matches)) [''5'', ''*'', ''2'', ''?'', ''*'']
       (ref_example, []) =
       ((False, None), (ref_example, [(''5'', 0, (True, None)), (''2'', 2, (False, None))]))"
    by (simp add: SegmentsDue_def recording_def exact_ops)
  have fields: "checked_fields [''5'', ''*'', ''2'', ''?'', ''*''] = [(0, ''5''), (2, ''2'')]"
    by (simp add: checked_fields_def checked_from_def wildcard_def)
  from SegmentsDue_checks_in_order[OF run] run fields show ?thesis
    by simp
qed

text \<open>
  C4. A checker whose \<open>CheckDue\<close> returns \<open>true\<close> together with an error: \<open>SegmentsDue\<close> and
  \<open>IsDue\<close> go on to the next field and return \<open>(true, nil)\<close>; the error is lost.
\<close>

theorem SegmentsDue_drops_error:
  "CheckDue (ref_checker ignoring_matches) ''61'' PosMinute ref_example =
     ((True, Some (Error ''bad field'')), ref_example) \<and>
   SegmentsDue (ref_checker ignoring_matches) [''61'', ''*'', ''*'', ''*'', ''*''] ref_example =
     ((True, None), ref_example) \<and>
   IsDue (ref_checker ignoring_matches) ref_example ''61 * * * *'' [ref_example] ref_example =
     ((True, None), ref_example)"
  by (simp add: IsDue_def Segments_def normalize_expr_def string_ops SegmentsDue_def
      ref_checker_def ignoring_matches_def)

section \<open>The number of fields\<close>

text \<open>
  C5. \<open>Segments\<close> returns the error of the wrong number of fields exactly when
  \<open>normalize\<close> gives fewer than 5 or more than 6 fields. Then it returns no fields, and
  \<open>IsDue\<close> and \<open>GetPrev\<close>, which have only set the reference time, return that error.
  Otherwise \<open>Segments\<close> returns the fields of \<open>normalize\<close>, in their order, and no error,
  and \<open>IsDue\<close> and \<open>GetPrev\<close> go on with these fields.
\<close>

theorem Segments_field_count:
  "(snd (Segments expr) = Some ErrSegments) =
     (length (normalize_expr expr) < 5 \<or> 6 < length (normalize_expr expr)) \<and>
   (if length (normalize_expr expr) < 5 \<or> 6 < length (normalize_expr expr)
    then Segments expr = ([], Some ErrSegments) \<and>
         IsDue c now expr ref s =
           ((False, Some ErrSegments),
            if length ref > 0 then SetRef c (ref ! 0) s else SetRef c now s) \<and>
         GetPrev c now expr ref s =
           Some (Return (None, Some ErrSegments),
                 if length ref > 0 then SetRef c (ref ! 0) s else SetRef c now s)
    else Segments expr = (normalize_expr expr, None) \<and>
         IsDue c now expr ref s =
           SegmentsDue c (normalize_expr expr)
             (if length ref > 0 then SetRef c (ref ! 0) s else SetRef c now s) \<and>
         GetPrev c now expr ref s =
           GetPrev_loop c (normalize_expr expr) 100
             (if length ref > 0 then SetRef c (ref ! 0) s else SetRef c now s))"
  by (simp add: Segments_def IsDue_def GetPrev_def Let_def)

section \<open>Aliases\<close>






section \<open>The calendar\<close>



















section \<open>The search for the previous due time\<close>

lemma scan_positions_pos:
  "scan_positions c segs ps s = (ScanNotDue pos, s') \<Longrightarrow> pos \<in> set ps"
  by (induction ps arbitrary: s) (auto simp: Let_def split: if_splits prod.splits option.splits)

lemma getPrevTime_returns:
  "pos \<le> 5 \<Longrightarrow> \<exists>res. getPrevTime ref pos = Return (res, Year res \<noteq> Year ref)"
  by (auto simp: getPrevTime_def Let_def)

lemma GetPrev_loop_no_Panic:
  assumes "GetPrev_loop c segs years s = Some out"
  shows "\<exists>r. fst out = Return r"
proof (rule GetPrev_loop.raw_induct[where P = "\<lambda>c segs years s out. \<exists>r. fst out = Return r", OF _ assms],
    goal_cases)
  case (1 loop c segs years s out)
  show ?case
  proof (cases "years > 0")
    case False
    with 1(2) show ?thesis by (auto simp: GetPrev_result_def Let_def split: if_splits)
  next
    case True
    obtain sc s1 where sc: "scan_positions c segs [PosYear, PosMonth, PosDayOfMonth, PosDayOfWeek, PosHour, PosMinute] s = (sc, s1)"
      by (cases "scan_positions c segs [PosYear, PosMonth, PosDayOfMonth, PosDayOfWeek, PosHour, PosMinute] s") auto
    show ?thesis
    proof (cases sc)
      case (ScanError e)
      with 1(2) True sc show ?thesis by auto
    next
      case ScanAllDue
      with 1(2) True sc show ?thesis by (auto simp: GetPrev_result_def Let_def split: if_splits)
    next
      case (ScanNotDue pos)
      with sc have "scan_positions c segs [PosYear, PosMonth, PosDayOfMonth, PosDayOfWeek, PosHour, PosMinute] s = (ScanNotDue pos, s1)"
        by simp
      then have "pos \<in> set [PosYear, PosMonth, PosDayOfMonth, PosDayOfWeek, PosHour, PosMinute]"
        by (rule scan_positions_pos)
      then have "pos \<le> 5" by auto
      from getPrevTime_returns[OF this] obtain res where
        g: "getPrevTime (GetRef c s1) pos = Return (res, Year res \<noteq> Year (GetRef c s1))" by blast
      with 1(2) True sc ScanNotDue
      have "loop c segs (if Year res \<noteq> Year (GetRef c s1) then years - 1 else years) (SetRef c res s1) = Some out"
        by simp
      from 1(1)[OF this] show ?thesis .
    qed
  qed
qed











text \<open>
  C9. \<open>getPrevTime\<close> panics exactly on a position that is none of the six, and no call of
  \<open>GetPrev\<close>, on any checker, expression, reference time and state, ends in a panic: the
  positions it passes on are those of its own list.
\<close>

theorem GetPrev_never_panics:
  "GetPrev c now expr ref s \<noteq> Some (Panic msg, s') \<and>
   (\<exists>m. getPrevTime t pos = Panic m) =
     (pos \<notin> set [PosYear, PosMonth, PosDayOfMonth, PosDayOfWeek, PosHour, PosMinute])"
proof -
  have "GetPrev c now expr ref s \<noteq> Some (Panic msg, s')"
  proof
    assume a: "GetPrev c now expr ref s = Some (Panic msg, s')"
    show False
    proof (cases "Segments expr")
      case (Pair segs err)
      show False
      proof (cases err)
        case (Some e)
        with a Pair show False by (simp add: GetPrev_def Let_def)
      next
        case None
        with a Pair have "GetPrev_loop c segs 100
            (if length ref > 0 then SetRef c (ref ! 0) s else SetRef c now s) = Some (Panic msg, s')"
          by (simp add: GetPrev_def Let_def)
        from GetPrev_loop_no_Panic[OF this] show False by simp
      qed
    qed
  qed
  moreover have "(\<exists>m. getPrevTime t pos = Panic m) =
     (pos \<notin> set [PosYear, PosMonth, PosDayOfMonth, PosDayOfWeek, PosHour, PosMinute])"
    by (auto simp: getPrevTime_def Let_def)
  ultimately show ?thesis by simp
qed





text \<open>
  The search run on \<open>0 0 1 1 *\<close> from 15 March 2024, 10:00: back over the months, the days,
  the hours and the minutes to 1 January 2024, 00:00.
\<close>

lemma Segments_yearly:
  "Segments ''0 0 1 1 *'' = ([''0'', ''0'', ''1'', ''1'', ''*''], None)"
  by (simp add: Segments_def normalize_expr_def string_ops)

lemma GetPrev_yearly:
  "GetPrev (ref_checker exact_matches) ref_example ''0 0 1 1 *'' [Date 2024 3 15 10 0 0 0]
     ref_example =
     Some (Return (Some (Date 2024 1 1 0 0 0 0), None), Date 2024 1 1 0 0 59 999999999)"
  apply (simp add: GetPrev_def Segments_yearly)
  apply (subst GetPrev_loop.simps,
      simp add: GetPrev_result_def getPrevTime_def Add_minus_Nanosecond_def exact_ops Let_def
        daysIn_def isLeap_def)+
  done


section \<open>The previous due time is the latest due minute\<close>
























section \<open>White space around and between the fields\<close>

lemma Trim_surrounded:
  assumes "set l \<subseteq> set cutset" and "set r \<subseteq> set cutset"
  shows "Trim (l @ s @ r) cutset = Trim s cutset"
proof -
  let ?P = "\<lambda>c. c \<in> set cutset"
  have l: "\<forall>x \<in> set l. ?P x" and r: "\<forall>x \<in> set (rev r). ?P x"
    using assms by auto
  have front: "dropWhile ?P (l @ s @ r) = dropWhile ?P (s @ r)"
    using l by (intro dropWhile_append2) blast
  show ?thesis
  proof (cases "\<forall>x \<in> set s. ?P x")
    case True
    then have a: "dropWhile ?P s = []" by simp
    from True assms(2) have "\<forall>x \<in> set (s @ r). ?P x" by auto
    then have b: "dropWhile ?P (s @ r) = []" by (simp only: dropWhile_eq_Nil_conv)
    show ?thesis by (simp only: Trim_def front a b)
  next
    case False
    then obtain x where "x \<in> set s" "\<not> ?P x" by blast
    then have "dropWhile ?P (s @ r) = dropWhile ?P s @ r"
      by (simp add: dropWhile_append1)
    then have e: "rev (dropWhile ?P (s @ r)) = rev r @ rev (dropWhile ?P s)" by simp
    have "dropWhile ?P (rev r @ rev (dropWhile ?P s)) = dropWhile ?P (rev (dropWhile ?P s))"
      using r by (intro dropWhile_append2) blast
    then have "dropWhile ?P (rev (dropWhile ?P (s @ r))) = dropWhile ?P (rev (dropWhile ?P s))"
      by (simp only: e)
    then show ?thesis by (simp only: Trim_def front)
  qed
qed

lemma Trim_interior:
  assumes "\<not> set a \<subseteq> set cutset" and "\<not> set b \<subseteq> set cutset"
  shows "Trim (a @ w @ b) cutset =
         dropWhile (\<lambda>c. c \<in> set cutset) a @ w @ rev (dropWhile (\<lambda>c. c \<in> set cutset) (rev b))"
proof -
  let ?P = "\<lambda>c. c \<in> set cutset"
  from assms(1) obtain x where "x \<in> set a" "\<not> ?P x" by blast
  then have front: "dropWhile ?P (a @ w @ b) = dropWhile ?P a @ w @ b"
    by (simp add: dropWhile_append1)
  from assms(2) obtain y where "y \<in> set (rev b)" "\<not> ?P y" by auto
  then have "dropWhile ?P (rev b @ rev w @ rev (dropWhile ?P a)) =
             dropWhile ?P (rev b) @ rev w @ rev (dropWhile ?P a)"
    by (simp add: dropWhile_append1)
  then show ?thesis by (simp add: Trim_def front)
qed

lemma collapse_run:
  assumes "w \<noteq> []" and "list_all isSpaceRe w"
  shows "SpaceRe_ReplaceAllString (w @ y) repl =
         repl @ SpaceRe_ReplaceAllString (dropWhile isSpaceRe y) repl"
proof -
  from assms(1) obtain c w' where w: "w = c # w'" by (cases w) auto
  with assms(2) have c: "isSpaceRe c" and w': "\<forall>x \<in> set w'. isSpaceRe x"
    by (simp_all add: list_all_iff)
  from w' have "dropWhile isSpaceRe (w' @ y) = dropWhile isSpaceRe y"
    by (simp add: dropWhile_append2)
  with c w show ?thesis by simp
qed

lemma collapse_interior:
  assumes "w1 \<noteq> []" "list_all isSpaceRe w1" "w2 \<noteq> []" "list_all isSpaceRe w2"
  shows "SpaceRe_ReplaceAllString (x @ w1 @ y) repl = SpaceRe_ReplaceAllString (x @ w2 @ y) repl"
proof (induction x rule: length_induct)
  case (1 x)
  show ?case
  proof (cases x)
    case Nil
    then show ?thesis
      using collapse_run[OF assms(1,2), of y repl] collapse_run[OF assms(3,4), of y repl] by simp
  next
    case (Cons c x')
    show ?thesis
    proof (cases "isSpaceRe c")
      case False
      with Cons 1 show ?thesis by simp
    next
      case True
      have w1: "\<forall>z \<in> set w1. isSpaceRe z" and w2: "\<forall>z \<in> set w2. isSpaceRe z"
        using assms(2,4) by (simp_all add: list_all_iff)
      have "dropWhile isSpaceRe (x' @ w1 @ y) = dropWhile isSpaceRe (x' @ w2 @ y) \<or>
            (\<exists>x''. length x'' < length x \<and>
               dropWhile isSpaceRe (x' @ w1 @ y) = x'' @ w1 @ y \<and>
               dropWhile isSpaceRe (x' @ w2 @ y) = x'' @ w2 @ y)"
      proof (cases "\<forall>z \<in> set x'. isSpaceRe z")
        case True
        then have "\<forall>z \<in> set (x' @ w1). isSpaceRe z" "\<forall>z \<in> set (x' @ w2). isSpaceRe z"
          using w1 w2 by auto
        then have "dropWhile isSpaceRe ((x' @ w1) @ y) = dropWhile isSpaceRe y"
          "dropWhile isSpaceRe ((x' @ w2) @ y) = dropWhile isSpaceRe y"
          by (simp_all only: dropWhile_append2)
        then show ?thesis by simp
      next
        case False
        then obtain z where "z \<in> set x'" "\<not> isSpaceRe z" by blast
        then have "dropWhile isSpaceRe (x' @ w1 @ y) = dropWhile isSpaceRe x' @ w1 @ y"
          "dropWhile isSpaceRe (x' @ w2 @ y) = dropWhile isSpaceRe x' @ w2 @ y"
          by (simp_all add: dropWhile_append1)
        moreover have "length (dropWhile isSpaceRe x') < length x"
          using Cons length_dropWhile_le[of isSpaceRe x'] by simp
        ultimately show ?thesis by blast
      qed
      then have "SpaceRe_ReplaceAllString (dropWhile isSpaceRe (x' @ w1 @ y)) repl =
                 SpaceRe_ReplaceAllString (dropWhile isSpaceRe (x' @ w2 @ y)) repl"
        using 1 by auto
      with Cons True show ?thesis by simp
    qed
  qed
qed

lemma toLowerByte_space: "isSpaceRe c \<Longrightarrow> toLowerByte c = c"
proof -
  assume "isSpaceRe c"
  then have "c = CHR 0x09 \<or> c = CHR 0x0A \<or> c = CHR 0x0C \<or> c = CHR 0x0D \<or> c = CHR '' ''"
    by (simp add: isSpaceRe_def)
  moreover have "toLowerByte (CHR 0x09) = CHR 0x09" "toLowerByte (CHR 0x0A) = CHR 0x0A"
    "toLowerByte (CHR 0x0C) = CHR 0x0C" "toLowerByte (CHR 0x0D) = CHR 0x0D"
    "toLowerByte (CHR '' '') = CHR '' ''"
    by (simp_all add: toLowerByte_def upper_letters_def lower_letters_def)
  ultimately show ?thesis by blast
qed

lemma expressions_no_space:
  assumes "expressions s = Some e"
  shows "\<forall>c \<in> set s. \<not> isSpaceRe c"
proof -
  define tbl where "tbl =
    [(''@yearly'', ''0 0 1 1 *''),
     (''@annually'', ''0 0 1 1 *''),
     (''@monthly'', ''0 0 1 * *''),
     (''@weekly'', ''0 0 * * 0''),
     (''@daily'', ''0 0 * * *''),
     (''@hourly'', ''0 * * * *''),
     (''@always'', ''* * * * *''),
     (''@5minutes'', ''*/5 * * * *''),
     (''@10minutes'', ''*/10 * * * *''),
     (''@15minutes'', ''*/15 * * * *''),
     (''@30minutes'', ''0,30 * * * *'')]"
  have tbl: "expressions = map_of tbl"
    by (simp only: expressions_def tbl_def)
  have "list_all (\<lambda>p. list_all (\<lambda>c. \<not> isSpaceRe c) (fst p)) tbl"
    unfolding tbl_def by (simp add: isSpaceRe_def)
  then have all: "\<forall>p \<in> set tbl. \<forall>c \<in> set (fst p). \<not> isSpaceRe c"
    by (simp only: list_all_iff)
  from assms have "(s, e) \<in> set tbl"
    unfolding tbl by (rule map_of_SomeD)
  with all have "\<forall>c \<in> set (fst (s, e)). \<not> isSpaceRe c" by (rule bspec)
  then show ?thesis by simp
qed

lemma no_alias_with_space:
  assumes "w \<noteq> []" and "list_all isSpaceRe w"
  shows "expressions (ToLower (x @ w @ y)) = None"
proof (cases "expressions (ToLower (x @ w @ y))")
  case (Some e)
  from assms obtain c where c: "c \<in> set w" "isSpaceRe c"
    by (cases w) (auto simp: list_all_iff)
  then have "toLowerByte c \<in> set (ToLower (x @ w @ y))"
    by (simp add: ToLower_def)
  with c have "c \<in> set (ToLower (x @ w @ y))" by (simp add: toLowerByte_space)
  with expressions_no_space[OF Some] c(2) show ?thesis by blast
qed simp

lemma normalize_surrounded:
  assumes "set l \<subseteq> {CHR '' '', CHR 0x09}" and "set r \<subseteq> {CHR '' '', CHR 0x09}"
  shows "normalize_expr (l @ expr @ r) = normalize_expr expr"
proof -
  have "Trim (l @ expr @ r) [CHR '' '', CHR 0x09] = Trim expr [CHR '' '', CHR 0x09]"
    using assms by (intro Trim_surrounded) simp_all
  then show ?thesis by (simp add: normalize_expr_def)
qed

lemma normalize_interior:
  assumes "w1 \<noteq> []" "list_all isSpaceRe w1" "w2 \<noteq> []" "list_all isSpaceRe w2"
    and "\<not> set a \<subseteq> {CHR '' '', CHR 0x09}" and "\<not> set b \<subseteq> {CHR '' '', CHR 0x09}"
  shows "normalize_expr (a @ w1 @ b) = normalize_expr (a @ w2 @ b)"
proof -
  let ?cut = "[CHR '' '', CHR 0x09]"
  let ?a = "dropWhile (\<lambda>c. c \<in> set ?cut) a"
  let ?b = "rev (dropWhile (\<lambda>c. c \<in> set ?cut) (rev b))"
  have t: "Trim (a @ w @ b) ?cut = ?a @ w @ ?b" for w
    using assms(5,6) by (intro Trim_interior) simp_all
  have n1: "expressions (ToLower (?a @ w1 @ ?b)) = None"
    using assms(1,2) by (rule no_alias_with_space)
  have n2: "expressions (ToLower (?a @ w2 @ ?b)) = None"
    using assms(3,4) by (rule no_alias_with_space)
  have "SpaceRe_ReplaceAllString (?a @ w1 @ ?b) '' '' = SpaceRe_ReplaceAllString (?a @ w2 @ ?b) '' ''"
    using assms(1-4) by (rule collapse_interior)
  then show ?thesis
    unfolding normalize_expr_def Let_def t n1 n2 by simp
qed

text \<open>
  C8, as the code has it. Spaces and tabs before and after an expression do not change
  the result of \<open>Segments\<close> and of \<open>IsDue\<close>. Between two parts of an expression that each
  hold a byte other than a space or a tab, one run of white space (spaces, tabs, newlines,
  form feeds, carriage returns) can be replaced by any other: one separator can be
  repeated, or be of another kind.
\<close>

theorem Segments_white_space:
  "(set l \<subseteq> {CHR '' '', CHR 0x09} \<and> set r \<subseteq> {CHR '' '', CHR 0x09} \<longrightarrow>
      Segments (l @ expr @ r) = Segments expr \<and>
      IsDue c now (l @ expr @ r) ref s = IsDue c now expr ref s) \<and>
   (w1 \<noteq> [] \<and> list_all isSpaceRe w1 \<and> w2 \<noteq> [] \<and> list_all isSpaceRe w2 \<and>
    \<not> set a \<subseteq> {CHR '' '', CHR 0x09} \<and> \<not> set b \<subseteq> {CHR '' '', CHR 0x09} \<longrightarrow>
      Segments (a @ w1 @ b) = Segments (a @ w2 @ b) \<and>
      IsDue c now (a @ w1 @ b) ref s = IsDue c now (a @ w2 @ b) ref s)"
proof -
  have 1: "Segments (l @ expr @ r) = Segments expr \<and>
      IsDue c now (l @ expr @ r) ref s = IsDue c now expr ref s"
    if "set l \<subseteq> {CHR '' '', CHR 0x09}" "set r \<subseteq> {CHR '' '', CHR 0x09}"
    using normalize_surrounded[OF that] by (simp add: Segments_def IsDue_def)
  have 2: "Segments (a @ w1 @ b) = Segments (a @ w2 @ b) \<and>
      IsDue c now (a @ w1 @ b) ref s = IsDue c now (a @ w2 @ b) ref s"
    if "w1 \<noteq> []" "list_all isSpaceRe w1" "w2 \<noteq> []" "list_all isSpaceRe w2"
      "\<not> set a \<subseteq> {CHR '' '', CHR 0x09}" "\<not> set b \<subseteq> {CHR '' '', CHR 0x09}"
    using normalize_interior[OF that] by (simp add: Segments_def IsDue_def)
  from 1 2 show ?thesis by blast
qed

theorem Segments_white_space_witness:
  "set ''  '' \<subseteq> {CHR '' '', CHR 0x09} \<and> set [CHR 0x09] \<subseteq> {CHR '' '', CHR 0x09} \<and>
   Segments (''  '' @ ''5 * * * *'' @ [CHR 0x09]) = Segments ''5 * * * *'' \<and>
   '' '' \<noteq> [] \<and> list_all isSpaceRe '' '' \<and>
   [CHR 0x09, CHR 0x0A, CHR '' ''] \<noteq> [] \<and> list_all isSpaceRe [CHR 0x09, CHR 0x0A, CHR '' ''] \<and>
   \<not> set ''5 *'' \<subseteq> {CHR '' '', CHR 0x09} \<and> \<not> set ''* * *'' \<subseteq> {CHR '' '', CHR 0x09} \<and>
   Segments (''5 *'' @ '' '' @ ''* * *'') =
     Segments (''5 *'' @ [CHR 0x09, CHR 0x0A, CHR '' ''] @ ''* * *'') \<and>
   Segments (''5 *'' @ '' '' @ ''* * *'') = ([''5'', ''*'', ''*'', ''*'', ''*''], None)"
proof -
  have h1: "set ''  '' \<subseteq> {CHR '' '', CHR 0x09}" "set [CHR 0x09] \<subseteq> {CHR '' '', CHR 0x09}"
    by simp_all
  have h2: "'' '' \<noteq> []" "list_all isSpaceRe '' ''"
    "[CHR 0x09, CHR 0x0A, CHR '' ''] \<noteq> []" "list_all isSpaceRe [CHR 0x09, CHR 0x0A, CHR '' '']"
    "\<not> set ''5 *'' \<subseteq> {CHR '' '', CHR 0x09}" "\<not> set ''* * *'' \<subseteq> {CHR '' '', CHR 0x09}"
    by (simp_all add: isSpaceRe_def)
  have v: "Segments (''5 *'' @ '' '' @ ''* * *'') = ([''5'', ''*'', ''*'', ''*'', ''*''], None)"
    by (simp add: Segments_def normalize_expr_def string_ops)
  from Segments_white_space[of "''  ''" "[CHR 0x09]" "''5 * * * *''"
      "ref_checker exact_matches" ref_example "[ref_example]" ref_example
      "'' ''" "[CHR 0x09, CHR 0x0A, CHR '' '']" "''5 *''" "''* * *''"] h1 h2
  have "Segments (''  '' @ ''5 * * * *'' @ [CHR 0x09]) = Segments ''5 * * * *'' \<and>
    Segments (''5 *'' @ '' '' @ ''* * *'') =
      Segments (''5 *'' @ [CHR 0x09, CHR 0x0A, CHR '' ''] @ ''* * *'')"
    by blast
  with h1 h2 v show ?thesis by simp
qed

text \<open>
  The claim C8 as the spec has it fails: a newline is white space, but it is not trimmed.
  A newline before \<open>* * * * *\<close> gives six fields, the first one empty, and a newline
  behind \<open>@hourly\<close> gives the error of the wrong number of fields.
\<close>

theorem Segments_white_space_counterexample:
  "isSpaceRe (CHR 0x0A) \<and>
   Segments (CHR 0x0A # ''* * * * *'') = ([[], ''*'', ''*'', ''*'', ''*'', ''*''], None) \<and>
   Segments ''* * * * *'' = ([''*'', ''*'', ''*'', ''*'', ''*''], None) \<and>
   Segments (''@hourly'' @ [CHR 0x0A]) = ([], Some ErrSegments) \<and>
   Segments ''@hourly'' = ([''0'', ''*'', ''*'', ''*'', ''*''], None)"
  by (simp add: Segments_def normalize_expr_def string_ops)

section \<open>Names of months and of days of the week\<close>





end
